theory Spec2Isabelle
  imports Main "HOL-Library.Sublist"
begin

section \<open>JavaScript values, strings and errors\<close>

text \<open>
  The plugin is JavaScript, so a link's \<open>title\<close>, the options and the file's metadata
  are dynamically typed. The values that matter here are \<open>undefined\<close>, \<open>null\<close>,
  booleans and strings. Only a string has the methods \<open>indexOf\<close> and \<open>split\<close>;
  calling them on \<open>true\<close> throws a TypeError.
\<close>

datatype jsval = Undefined | Null | Bool bool | Str string

datatype js_error = Error (emessage: string) | TypeError (emessage: string)

fun truthy :: "jsval \<Rightarrow> bool" where
  "truthy Undefined = False"
| "truthy Null = False"
| "truthy (Bool b) = b"
| "truthy (Str s) = (s \<noteq> [])"

text \<open>What a template literal \<^verbatim>\<open>`${x}`\<close> renders for a value.\<close>

fun template :: "jsval \<Rightarrow> string" where
  "template Undefined = ''undefined''"
| "template Null = ''null''"
| "template (Bool b) = (if b then ''true'' else ''false'')"
| "template (Str s) = s"

text \<open>\<open>String.prototype.indexOf\<close>: the first index where the pattern starts, or -1.\<close>

fun indexOf_from :: "string \<Rightarrow> string \<Rightarrow> nat \<Rightarrow> int" where
  "indexOf_from [] pat i = (if pat = [] then int i else - 1)"
| "indexOf_from (c # cs) pat i =
     (if prefix pat (c # cs) then int i else indexOf_from cs pat (Suc i))"

definition indexOf :: "string \<Rightarrow> string \<Rightarrow> int" where
  "indexOf s pat = indexOf_from s pat 0"

text \<open>\<open>title.indexOf(pat)\<close> on a dynamically typed title.\<close>

fun js_indexOf :: "jsval \<Rightarrow> string \<Rightarrow> js_error + int" where
  "js_indexOf (Str s) pat = Inr (indexOf s pat)"
| "js_indexOf v pat = Inl (TypeError ''title.indexOf is not a function'')"

text \<open>\<open>String.prototype.split\<close> with a one-character separator: \<open>''''.split('|')\<close> is
  \<open>['''']\<close>, and every separator starts a new (possibly empty) segment.\<close>

fun js_split :: "char \<Rightarrow> string \<Rightarrow> string list" where
  "js_split d [] = [[]]"
| "js_split d (c # cs) =
     (if c = d then [] # js_split d cs
      else (case js_split d cs of [] \<Rightarrow> [[c]] | s # ss \<Rightarrow> (c # s) # ss))"

text \<open>Array destructuring: an index past the end gives \<open>undefined\<close>.\<close>

definition element :: "string list \<Rightarrow> nat \<Rightarrow> jsval" where
  "element xs i = (if i < length xs then Str (xs ! i) else Undefined)"

section \<open>The document tree\<close>

text \<open>
  An MDAST node, with the four attributes the plugin or the traversal reads. A node of
  the tree is referred to by its path from the root (the child index at every level): the
  plugin keeps references to nodes and later assigns to \<open>node.title\<close> through them.
\<close>

datatype position = Position (start_line: nat) (start_column: nat) (end_line: nat) (end_column: nat)

datatype node = Node (ntype: string) (title: jsval) (position: "position option") (children: "node list")

type_synonym path = "nat list"

text \<open>A reference as the scan keeps it: where the node is, and the node as visited.\<close>

type_synonym ref = "path \<times> node"

primrec get :: "path \<Rightarrow> node \<Rightarrow> node option" where
  "get [] n = Some n"
| "get (i # p) n = (if i < length (children n) then get p (children n ! i) else None)"

text \<open>The assignment \<open>node.title = v\<close> through a reference.\<close>

primrec set_title :: "path \<Rightarrow> jsval \<Rightarrow> node \<Rightarrow> node" where
  "set_title [] v n = Node (ntype n) v (position n) (children n)"
| "set_title (i # p) v n =
     (if i < length (children n)
      then Node (ntype n) (title n) (position n) ((children n)[i := set_title p v (children n ! i)])
      else n)"

text \<open>
  \<open>visit(tree, type, visitor)\<close> of unist-util-visit, an external dependency: a depth-first,
  parent-before-children, left-to-right walk that calls the visitor on every node of the
  given type. The visitor here returns the node (never \<open>false\<close>), so the walk is never cut
  short; an exception of the visitor ends the walk and propagates. The visitor's effect on
  the variables it closes over is the state \<open>'s\<close>.
\<close>

fun visit :: "string \<Rightarrow> (ref \<Rightarrow> 's \<Rightarrow> js_error + 's) \<Rightarrow> path \<Rightarrow> node \<Rightarrow> 's \<Rightarrow> js_error + 's"
and visit_all :: "string \<Rightarrow> (ref \<Rightarrow> 's \<Rightarrow> js_error + 's) \<Rightarrow> path \<Rightarrow> nat \<Rightarrow> node list \<Rightarrow> 's \<Rightarrow> js_error + 's" where
  "visit ty f p (Node t ti pos cs) s =
     (case (if t = ty then f (p, Node t ti pos cs) s else Inr s) of
        Inl e \<Rightarrow> Inl e
      | Inr s' \<Rightarrow> visit_all ty f p 0 cs s')"
| "visit_all ty f p i [] s = Inr s"
| "visit_all ty f p i (c # cs) s =
     (case visit ty f (p @ [i]) c s of
        Inl e \<Rightarrow> Inl e
      | Inr s' \<Rightarrow> visit_all ty f p (Suc i) cs s')"

section \<open>The file, its report, and the outside world\<close>

text \<open>
  A VFile as far as the plugin uses it: \<open>vFile.data.destinationDir\<close>, \<open>vFile.dirname\<close> and
  the append-only list \<open>vFile.messages\<close>. \<open>vFile.message(reason, position, origin)\<close> appends
  an entry, \<open>vFile.info\<close> appends an informational one.
\<close>

datatype kind = Info | Message

record vmessage =
  kind :: kind
  reason :: string
  location :: "position option"
  origin :: string

record vdata =
  destinationDir :: jsval

record vfile =
  data :: vdata
  dirname :: jsval
  messages :: "vmessage list"

definition vfile_message :: "js_error \<Rightarrow> position option \<Rightarrow> string \<Rightarrow> vfile \<Rightarrow> vfile" where
  "vfile_message e pos src vf =
     vf\<lparr>messages := messages vf @ [\<lparr>kind = Message, reason = emessage e, location = pos, origin = src\<rparr>]\<rparr>"

definition vfile_info :: "string \<Rightarrow> position option \<Rightarrow> string \<Rightarrow> vfile \<Rightarrow> vfile" where
  "vfile_info txt pos src vf =
     vf\<lparr>messages := messages vf @ [\<lparr>kind = Info, reason = txt, location = pos, origin = src\<rparr>]\<rparr>"

text \<open>
  An HTTP request as \<open>fetch(url, {headers})\<close> issues it (no method given: GET), and what
  comes back: a rejection, or a response with status, status text and body.
\<close>

type_synonym stream = string

record request =
  http_method :: string
  url :: string
  headers :: "(string \<times> jsval) list"

datatype fetch_result = Rejected js_error | Response (status: int) (statusText: string) (body: stream)

text \<open>
  The world outside the plugin: what the \<open>i\<close>-th link's request is answered with, and
  whether unzipping the \<open>i\<close>-th link's archive into a directory finishes (\<open>None\<close>) or
  emits an error. A world answers every request and ends every extraction; an
  \<open>environment\<close>, further down, adds the extractions that never end.
\<close>

record world =
  fetch :: "nat \<Rightarrow> request \<Rightarrow> fetch_result"
  unzip :: "nat \<Rightarrow> jsval \<Rightarrow> stream \<Rightarrow> js_error option"

record options =
  apiBase :: jsval
  gitlabApiToken :: jsval

text \<open>
  Everything a run can change: the tree, the file, the requests issued so far (in the
  order issued) and the extractions started so far (directory and archive).
\<close>

record state =
  tree :: node
  vFile :: vfile
  net :: "request list"
  disk :: "(jsval \<times> stream) list"

section \<open>The plugin\<close>

definition PLUGIN_NAME :: string where
  "PLUGIN_NAME = ''remark-gitlab-artifact''"

definition marker :: string where
  "marker = ''gitlab-artifact|''"

definition getDestinationDir :: "vfile \<Rightarrow> jsval" where
  "getDestinationDir vf =
     (if truthy (destinationDir (data vf)) then destinationDir (data vf) else dirname vf)"

definition artifact_url :: "jsval \<Rightarrow> jsval \<Rightarrow> jsval \<Rightarrow> string" where
  "artifact_url base projectId jobName =
     template base @ ''/api/v4/projects/'' @ template projectId
       @ ''/jobs/artifacts/master/download?job='' @ template jobName"

text \<open>
  \<open>getArtifact\<close>: the requests it issues, and the body or the error thrown. The index
  says which link's call this is.
\<close>

definition getArtifact :: "world \<Rightarrow> nat \<Rightarrow> jsval \<Rightarrow> jsval \<Rightarrow> jsval \<Rightarrow> jsval \<Rightarrow> request list \<times> (js_error + stream)" where
  "getArtifact w i base token projectId jobName =
     (let u = artifact_url base projectId jobName;
          rq = \<lparr>http_method = ''GET'', url = u, headers = [(''PRIVATE-TOKEN'', token)]\<rparr>
      in ([rq],
          (case fetch w i rq of
             Rejected e \<Rightarrow> Inl e
           | Response st txt b \<Rightarrow>
               if st \<noteq> 200 then Inl (Error (txt @ '' from '' @ u @ ''.'')) else Inr b)))"

definition extractArtifact :: "world \<Rightarrow> nat \<Rightarrow> jsval \<Rightarrow> stream \<Rightarrow> js_error + unit" where
  "extractArtifact w i dir artifact =
     (case unzip w i dir artifact of None \<Rightarrow> Inr () | Some e \<Rightarrow> Inl e)"

text \<open>The visitor of \<open>visitLink\<close>: it pushes the node unless the title is falsy or lacks
  the marker.\<close>

definition visitor :: "ref \<Rightarrow> ref list \<Rightarrow> js_error + ref list" where
  "visitor r nodes =
     (if \<not> truthy (title (snd r)) then Inr nodes
      else (case js_indexOf (title (snd r)) marker of
              Inl e \<Rightarrow> Inl e
            | Inr k \<Rightarrow> if k = - 1 then Inr nodes else Inr (nodes @ [r])))"

text \<open>\<open>title.split('|')\<close> in a link's task. A node the scan collected has a string title
  (lemma \<open>collected_title_is_string\<close> below), so the other case is never reached.\<close>

fun title_split :: "jsval \<Rightarrow> string list" where
  "title_split (Str s) = js_split CHR ''|'' s"
| "title_split v = []"

definition projectId_of :: "ref \<Rightarrow> jsval" where
  "projectId_of r = element (title_split (title (snd r))) 1"

definition jobName_of :: "ref \<Rightarrow> jsval" where
  "jobName_of r = element (title_split (title (snd r))) 2"

text \<open>
  A link's task runs in two parts. The first, up to \<open>await fetch(...)\<close>, runs inside
  \<open>nodes.map\<close>, for every link in scan order, before anything completes: it reads the
  title and issues the request. The second runs when the task's awaits have settled; it
  shares no await with the assignments it makes, so it is one step.
\<close>

definition issue :: "world \<Rightarrow> options \<Rightarrow> nat \<Rightarrow> ref \<Rightarrow> request list" where
  "issue w opts i r =
     fst (getArtifact w i (apiBase opts) (gitlabApiToken opts) (projectId_of r) (jobName_of r))"

definition settle :: "world \<Rightarrow> options \<Rightarrow> nat \<Rightarrow> ref \<Rightarrow> state \<Rightarrow> state" where
  "settle w opts i r st =
     (let pos = position (snd r); projectId = projectId_of r; jobName = jobName_of r in
      case snd (getArtifact w i (apiBase opts) (gitlabApiToken opts) projectId jobName) of
        Inl e \<Rightarrow> st\<lparr>vFile := vfile_message e pos PLUGIN_NAME (vFile st)\<rparr>
      | Inr artifact \<Rightarrow>
          (let dir = getDestinationDir (vFile st);
               st1 = st\<lparr>disk := disk st @ [(dir, artifact)]\<rparr>
           in case extractArtifact w i dir artifact of
                Inl e \<Rightarrow> st1\<lparr>vFile := vfile_message e pos PLUGIN_NAME (vFile st1)\<rparr>
              | Inr u \<Rightarrow>
                  st1\<lparr>tree := set_title (fst r) (Str []) (tree st1),
                      vFile := vfile_info (''artifacts fetched from '' @ template projectId @ '' '' @ template jobName)
                                 pos PLUGIN_NAME (vFile st1)\<rparr>))"

text \<open>
  The order in which the \<open>n\<close> tasks complete is not the plugin's to choose. A schedule
  is any list of numbers; the tasks it names complete in its order, and the ones it leaves
  out after those. Every order of the tasks is the order of some schedule.
\<close>

definition completion_order :: "nat list \<Rightarrow> nat \<Rightarrow> nat list" where
  "completion_order sched n =
     remdups (filter (\<lambda>i. i < n) sched) @ filter (\<lambda>i. i \<notin> set sched) [0..<n]"

text \<open>\<open>Promise.all(nodes.map(...))\<close>: every task issues its request, in scan order; then
  the tasks complete, each in one step, in the order of the schedule.\<close>

definition issue_all :: "world \<Rightarrow> options \<Rightarrow> ref list \<Rightarrow> request list" where
  "issue_all w opts nodes = concat (map (\<lambda>(i, r). issue w opts i r) (enumerate 0 nodes))"

definition settle_all :: "world \<Rightarrow> options \<Rightarrow> ref list \<Rightarrow> nat list \<Rightarrow> state \<Rightarrow> state" where
  "settle_all w opts nodes order st = foldl (\<lambda>s i. settle w opts i (nodes ! i) s) st order"

definition visitLink :: "world \<Rightarrow> nat list \<Rightarrow> options \<Rightarrow> state \<Rightarrow> js_error + state" where
  "visitLink w sched opts st =
     (case visit ''link'' visitor [] (tree st) [] of
        Inl e \<Rightarrow> Inl e
      | Inr nodes \<Rightarrow>
          if nodes = [] then Inr st
          else Inr (settle_all w opts nodes (completion_order sched (length nodes))
                      (st\<lparr>net := net st @ issue_all w opts nodes\<rparr>)))"

text \<open>
  The transformer: \<open>visitLink\<close> inside \<open>try\<close>/\<open>catch\<close>, then the tree goes to \<open>next\<close> when
  the caller gave one, and is returned otherwise. The call of \<open>next\<close> stands outside the
  \<open>try\<close>: whatever the caller's \<open>next\<close> returns or throws, a value of \<open>'r\<close>, is the
  transformer's outcome. This is the run in a world, where every awaited promise settles.
\<close>

datatype 'r returned = Tree node | Next 'r

definition transformer :: "world \<Rightarrow> nat list \<Rightarrow> options \<Rightarrow> (node \<Rightarrow> vfile \<Rightarrow> 'r) option \<Rightarrow> state \<Rightarrow> 'r returned \<times> state" where
  "transformer w sched opts next st =
     (let st' = (case visitLink w sched opts st of Inl err \<Rightarrow> st | Inr s \<Rightarrow> s)
      in (case next of
            Some k \<Rightarrow> (Next (k (tree st') (vFile st')), st')
          | None \<Rightarrow> (Tree (tree st'), st')))"

section \<open>Promises that stay pending\<close>






section \<open>Vocabulary of the properties\<close>

text \<open>Every node of a tree with its path, parents before children, left to right.\<close>

fun refs :: "path \<Rightarrow> node \<Rightarrow> ref list"
and refs_all :: "path \<Rightarrow> nat \<Rightarrow> node list \<Rightarrow> ref list" where
  "refs p (Node t ti pos cs) = (p, Node t ti pos cs) # refs_all p 0 cs"
| "refs_all p i [] = []"
| "refs_all p i (c # cs) = refs (p @ [i]) c @ refs_all p (Suc i) cs"

text \<open>A title references an artifact when it is a non-empty string that contains the
  marker somewhere.\<close>

definition references_artifact :: "jsval \<Rightarrow> bool" where
  "references_artifact t = (case t of Str s \<Rightarrow> s \<noteq> [] \<and> sublist marker s | _ \<Rightarrow> False)"

text \<open>The nodes the scan is to collect, and the ones its visitor throws on.\<close>

definition pushed :: "ref \<Rightarrow> bool" where
  "pushed r = (ntype (snd r) = ''link'' \<and> references_artifact (title (snd r)))"

definition faulty :: "ref \<Rightarrow> bool" where
  "faulty r = (ntype (snd r) = ''link'' \<and> title (snd r) = Bool True)"

definition scan_fault :: js_error where
  "scan_fault = TypeError ''title.indexOf is not a function''"


text \<open>The assignments \<open>node.title = ''''\<close> through a list of references.\<close>

definition clear_titles :: "path list \<Rightarrow> node \<Rightarrow> node" where
  "clear_titles ps t = foldl (\<lambda>t p. set_title p (Str []) t) t ps"

text \<open>The request of a link's task, as \<open>getArtifact\<close> issues it for the project and job
  read from the link's title.\<close>

definition artifact_request :: "options \<Rightarrow> ref \<Rightarrow> request" where
  "artifact_request opts r =
     \<lparr>http_method = ''GET'',
      url = artifact_url (apiBase opts) (projectId_of r) (jobName_of r),
      headers = [(''PRIVATE-TOKEN'', gitlabApiToken opts)]\<rparr>"

text \<open>The entry that completing a link's task appends to the report, and the extraction
  it starts, read off the step itself.\<close>

definition diagnostic :: "world \<Rightarrow> options \<Rightarrow> state \<Rightarrow> nat \<Rightarrow> ref \<Rightarrow> vmessage" where
  "diagnostic w opts st i r = last (messages (vFile (settle w opts i r st)))"

definition extraction :: "world \<Rightarrow> options \<Rightarrow> state \<Rightarrow> nat \<Rightarrow> ref \<Rightarrow> (jsval \<times> stream) list" where
  "extraction w opts st i r = drop (length (disk st)) (disk (settle w opts i r st))"

section \<open>A document, options and worlds to run the plugin on\<close>

text \<open>
  The shape of the repository's test fixture: a paragraph of links, each with a text
  child; the file's metadata names a destination directory; the options are the test's;
  a world that answers every request with one status and unzips without error.
\<close>

definition link :: "string \<Rightarrow> nat \<Rightarrow> node" where
  "link s line = Node ''link'' (Str s) (Some (Position line 1 line 60)) [Node ''text'' Undefined None []]"

definition document :: "node list \<Rightarrow> node" where
  "document ns = Node ''root'' Undefined None [Node ''paragraph'' Undefined None ns]"

definition start :: "node \<Rightarrow> state" where
  "start t =
     \<lparr>tree = t,
      vFile = \<lparr>data = \<lparr>destinationDir = Str ''/test/runtime''\<rparr>,
               dirname = Str ''/test/fixtures'', messages = []\<rparr>,
      net = [], disk = []\<rparr>"

definition gitlab :: "string \<Rightarrow> options" where
  "gitlab token = \<lparr>apiBase = Str ''https://src.temando.io'', gitlabApiToken = Str token\<rparr>"

definition answering :: "int \<Rightarrow> string \<Rightarrow> world" where
  "answering sc txt = \<lparr>fetch = (\<lambda>i rq. Response sc txt ''PK''), unzip = (\<lambda>i dir a. None)\<rparr>"

definition no_next :: "(node \<Rightarrow> vfile \<Rightarrow> unit) option" where
  "no_next = None"



section \<open>Strings\<close>

lemma indexOf_from_sublist: "indexOf_from s pat i \<noteq> - 1 \<longleftrightarrow> sublist pat s"
  by (induction s arbitrary: i) (auto simp: sublist_Cons_right)

lemma indexOf_sublist: "indexOf s pat = - 1 \<longleftrightarrow> \<not> sublist pat s"
  using indexOf_from_sublist [of s pat 0] by (auto simp: indexOf_def)

lemma js_split_nonempty: "js_split d s \<noteq> []"
  by (induction s) (auto split: list.splits)

lemma length_js_split: "length (js_split d s) = Suc (count_list s d)"
  by (induction s) (auto split: list.splits simp: js_split_nonempty)

section \<open>The scan\<close>

lemma visitor_cases:
  "visitor r nodes =
     (if title (snd r) = Bool True then Inl scan_fault
      else if references_artifact (title (snd r)) then Inr (nodes @ [r]) else Inr nodes)"
  by (cases "title (snd r)")
     (auto simp: visitor_def references_artifact_def scan_fault_def indexOf_sublist)

lemma visit_refs:
  "visit ''link'' visitor p n acc =
     (if \<exists>r \<in> set (refs p n). faulty r then Inl scan_fault else Inr (acc @ filter pushed (refs p n)))"
  "visit_all ''link'' visitor p i cs acc =
     (if \<exists>r \<in> set (refs_all p i cs). faulty r then Inl scan_fault else Inr (acc @ filter pushed (refs_all p i cs)))"
proof (induction "''link''" visitor p n acc and "''link''" visitor p i cs acc rule: visit_visit_all.induct)
  case (1 p t ti pos cs s)
  then show ?case
    by (auto simp: visitor_cases faulty_def pushed_def)
next
  case (2 p i s)
  then show ?case by simp
next
  case (3 p i c cs s)
  then show ?case by auto
qed

lemma refs_get:
  "(q, m) \<in> set (refs p n) \<longleftrightarrow> (\<exists>r. q = p @ r \<and> get r n = Some m)"
  "(q, m) \<in> set (refs_all p i cs) \<longleftrightarrow>
     (\<exists>j r. j < length cs \<and> q = p @ (i + j) # r \<and> get r (cs ! j) = Some m)"
proof (induction p n and p i cs arbitrary: q m and q m rule: refs_refs_all.induct)
  case (1 p t ti pos cs)
  show ?case
  proof
    assume "(q, m) \<in> set (refs p (Node t ti pos cs))"
    then consider "q = p" "m = Node t ti pos cs" | "(q, m) \<in> set (refs_all p 0 cs)" by auto
    then show "\<exists>r. q = p @ r \<and> get r (Node t ti pos cs) = Some m"
    proof cases
      case 1
      then show ?thesis by (intro exI [of _ "[]"]) simp
    next
      case 2
      then obtain j r where "j < length cs" "q = p @ j # r" "get r (cs ! j) = Some m"
        using "1.IH" by auto
      then show ?thesis by (intro exI [of _ "j # r"]) simp
    qed
  next
    assume "\<exists>r. q = p @ r \<and> get r (Node t ti pos cs) = Some m"
    then obtain r where r: "q = p @ r" "get r (Node t ti pos cs) = Some m" by blast
    show "(q, m) \<in> set (refs p (Node t ti pos cs))"
    proof (cases r)
      case Nil
      with r have "q = p" "m = Node t ti pos cs" by auto
      then show ?thesis by simp
    next
      case (Cons j r')
      with r have "j < length cs" "get r' (cs ! j) = Some m" by (auto split: if_splits)
      with r Cons have "(q, m) \<in> set (refs_all p 0 cs)" using "1.IH" by auto
      then show ?thesis by simp
    qed
  qed
next
  case (2 p i)
  show ?case by simp
next
  case (3 p i c cs)
  have "(q, m) \<in> set (refs_all p i (c # cs)) \<longleftrightarrow>
        (\<exists>r. q = (p @ [i]) @ r \<and> get r c = Some m) \<or>
        (\<exists>j r. j < length cs \<and> q = p @ (Suc i + j) # r \<and> get r (cs ! j) = Some m)"
    using "3.IH" by simp
  also have "\<dots> \<longleftrightarrow> (\<exists>j r. j < length (c # cs) \<and> q = p @ (i + j) # r \<and> get r ((c # cs) ! j) = Some m)"
    (is "?L \<longleftrightarrow> ?R")
  proof
    assume ?L
    then show ?R
    proof
      assume "\<exists>r. q = (p @ [i]) @ r \<and> get r c = Some m"
      then obtain r where "q = p @ (i + 0) # r" "get r ((c # cs) ! 0) = Some m" by auto
      then show ?R by (intro exI [of _ 0] exI [of _ r]) simp
    next
      assume "\<exists>j r. j < length cs \<and> q = p @ (Suc i + j) # r \<and> get r (cs ! j) = Some m"
      then obtain j r where "j < length cs" "q = p @ (Suc i + j) # r" "get r (cs ! j) = Some m" by blast
      then show ?R by (intro exI [of _ "Suc j"] exI [of _ r]) simp
    qed
  next
    assume ?R
    then obtain j r where jr: "j < length (c # cs)" "q = p @ (i + j) # r" "get r ((c # cs) ! j) = Some m"
      by blast
    show ?L
    proof (cases j)
      case 0
      with jr show ?thesis by simp
    next
      case (Suc k)
      with jr have "k < length cs" "q = p @ (Suc i + k) # r" "get r (cs ! k) = Some m" by auto
      then show ?thesis by blast
    qed
  qed
  finally show ?case .
qed

lemma refs_distinct:
  "distinct (map fst (refs p n))"
  "distinct (map fst (refs_all p i cs))"
proof (induction p n and p i cs rule: refs_refs_all.induct)
  case (1 p t ti pos cs)
  have "p \<notin> fst ` set (refs_all p 0 cs)"
  proof
    assume "p \<in> fst ` set (refs_all p 0 cs)"
    then obtain m where "(p, m) \<in> set (refs_all p 0 cs)" by auto
    then show False using refs_get(2) [of p m p 0 cs] by auto
  qed
  with 1 show ?case by simp
next
  case (2 p i)
  show ?case by simp
next
  case (3 p i c cs)
  have "fst ` set (refs (p @ [i]) c) \<inter> fst ` set (refs_all p (Suc i) cs) = {}"
  proof (rule ccontr)
    assume "fst ` set (refs (p @ [i]) c) \<inter> fst ` set (refs_all p (Suc i) cs) \<noteq> {}"
    then obtain q m m' where "(q, m) \<in> set (refs (p @ [i]) c)" "(q, m') \<in> set (refs_all p (Suc i) cs)"
      by auto
    then show False using refs_get(1) [of q m "p @ [i]" c] refs_get(2) [of q m' p "Suc i" cs] by auto
  qed
  with 3 show ?case by simp
qed

section \<open>Assignments to titles\<close>


lemma get_set_title_None: "get q (set_title p v n) = None \<longleftrightarrow> get q n = None"
proof (induction p arbitrary: q n)
  case Nil
  show ?case by (cases q) simp_all
next
  case (Cons i p)
  show ?case
  proof (cases q)
    case Nil
    then show ?thesis by simp
  next
    case (Cons j q')
    then show ?thesis using Cons.IH by (simp add: nth_list_update)
  qed
qed

lemma get_set_title_Some:
  "get q (set_title p v n) = Some m' \<Longrightarrow>
     \<exists>m. get q n = Some m \<and> ntype m' = ntype m \<and> position m' = position m \<and>
         title m' = (if q = p then v else title m)"
proof (induction p arbitrary: q n)
  case Nil
  then show ?case by (cases q) (auto split: if_splits)
next
  case (Cons i p)
  show ?case
  proof (cases q)
    case Nil
    with Cons.prems show ?thesis by (auto split: if_splits)
  next
    case q: (Cons j q')
    show ?thesis
    proof (cases "i < length (children n)")
      case False
      with Cons.prems show ?thesis by auto
    next
      case True
      show ?thesis
      proof (cases "j = i")
        case True
        with Cons.prems q \<open>i < length (children n)\<close>
        have "get q' (set_title p v (children n ! i)) = Some m'" by simp
        from Cons.IH [OF this] show ?thesis using q True \<open>i < length (children n)\<close> by auto
      next
        case False
        with Cons.prems q \<open>i < length (children n)\<close> show ?thesis
          by (auto simp: nth_list_update split: if_splits)
      qed
    qed
  qed
qed


lemma get_clear_titles_None: "get q (clear_titles ps t) = None \<longleftrightarrow> get q t = None"
  unfolding clear_titles_def by (induction ps arbitrary: t) (simp_all add: get_set_title_None)

lemma get_clear_titles_Some:
  "get q (clear_titles ps t) = Some m' \<Longrightarrow>
     \<exists>m. get q t = Some m \<and> ntype m' = ntype m \<and> position m' = position m \<and>
         title m' = (if q \<in> set ps then Str [] else title m)"
  unfolding clear_titles_def
proof (induction ps arbitrary: t)
  case Nil
  then show ?case by simp
next
  case (Cons p ps)
  from Cons.prems have "get q (foldl (\<lambda>t p. set_title p (Str []) t) (set_title p (Str []) t) ps) = Some m'"
    by simp
  from Cons.IH [OF this] obtain m1 where m1: "get q (set_title p (Str []) t) = Some m1"
    "ntype m' = ntype m1" "position m' = position m1"
    "title m' = (if q \<in> set ps then Str [] else title m1)" by blast
  from get_set_title_Some [OF m1(1)] obtain m where "get q t = Some m" "ntype m1 = ntype m"
    "position m1 = position m" "title m1 = (if q = p then Str [] else title m)" by blast
  with m1 show ?case by auto
qed

section \<open>Completing a task\<close>

lemma completion_order_distinct: "distinct (completion_order sched n)"
  by (auto simp: completion_order_def)

lemma completion_order_set: "set (completion_order sched n) = {0..<n}"
  by (auto simp: completion_order_def)

lemma getArtifact_request:
  "getArtifact w i (apiBase opts) (gitlabApiToken opts) (projectId_of r) (jobName_of r) =
     ([artifact_request opts r],
      (case fetch w i (artifact_request opts r) of
         Rejected e \<Rightarrow> Inl e
       | Response sc txt b \<Rightarrow>
           if sc \<noteq> 200
           then Inl (Error (txt @ '' from '' @ artifact_url (apiBase opts) (projectId_of r) (jobName_of r) @ ''.''))
           else Inr b))"
  by (simp add: getArtifact_def artifact_request_def Let_def)

lemma url_artifact_request:
  "url (artifact_request opts r) = artifact_url (apiBase opts) (projectId_of r) (jobName_of r)"
  by (simp add: artifact_request_def)

lemma issue_request: "issue w opts i r = [artifact_request opts r]"
  by (simp add: issue_def getArtifact_request)

lemma settle_messages:
  "messages (vFile (settle w opts i r s)) = messages (vFile s) @ [diagnostic w opts s i r]"
  by (simp add: diagnostic_def settle_def Let_def vfile_message_def vfile_info_def
      split: sum.splits)

lemma settle_frame:
  "data (vFile (settle w opts i r s)) = data (vFile s)"
  "dirname (vFile (settle w opts i r s)) = dirname (vFile s)"
  "net (settle w opts i r s) = net s"
  by (simp_all add: settle_def Let_def vfile_message_def vfile_info_def split: sum.splits)

lemma getDestinationDir_frame:
  "data vf' = data vf \<Longrightarrow> dirname vf' = dirname vf \<Longrightarrow> getDestinationDir vf' = getDestinationDir vf"
  by (simp add: getDestinationDir_def)

lemma diagnostic_frame:
  assumes "data (vFile s) = data (vFile st)" "dirname (vFile s) = dirname (vFile st)"
  shows "diagnostic w opts s i r = diagnostic w opts st i r"
  using getDestinationDir_frame [OF assms]
  by (simp add: diagnostic_def settle_def Let_def vfile_message_def vfile_info_def
      split: sum.splits)

lemma extraction_frame:
  assumes "data (vFile s) = data (vFile st)" "dirname (vFile s) = dirname (vFile st)"
  shows "extraction w opts s i r = extraction w opts st i r"
  using getDestinationDir_frame [OF assms]
  by (simp add: extraction_def settle_def Let_def split: sum.splits)

lemma settle_disk: "disk (settle w opts i r s) = disk s @ extraction w opts s i r"
  by (simp add: extraction_def settle_def Let_def split: sum.splits)

lemma extraction_dir: "x \<in> set (extraction w opts s i r) \<Longrightarrow> fst x = getDestinationDir (vFile s)"
  by (auto simp: extraction_def settle_def Let_def split: sum.splits)

lemma settle_tree:
  "tree (settle w opts i r s) =
     (if kind (diagnostic w opts s i r) = Info then set_title (fst r) (Str []) (tree s) else tree s)"
  by (simp add: diagnostic_def settle_def Let_def vfile_message_def vfile_info_def
      split: sum.splits)

lemma diagnostic_rejected:
  "fetch w i (artifact_request opts r) = Rejected e \<Longrightarrow>
     diagnostic w opts st i r =
       \<lparr>kind = Message, reason = emessage e, location = position (snd r), origin = PLUGIN_NAME\<rparr>"
  by (simp add: diagnostic_def settle_def getArtifact_request vfile_message_def)

lemma diagnostic_status:
  "fetch w i (artifact_request opts r) = Response sc txt b \<Longrightarrow> sc \<noteq> 200 \<Longrightarrow>
     diagnostic w opts st i r =
       \<lparr>kind = Message, reason = txt @ '' from '' @ url (artifact_request opts r) @ ''.'',
        location = position (snd r), origin = PLUGIN_NAME\<rparr>"
  by (simp add: diagnostic_def settle_def getArtifact_request vfile_message_def url_artifact_request)

lemma diagnostic_unzip:
  "fetch w i (artifact_request opts r) = Response 200 txt b \<Longrightarrow>
   unzip w i (getDestinationDir (vFile st)) b = Some e \<Longrightarrow>
     diagnostic w opts st i r =
       \<lparr>kind = Message, reason = emessage e, location = position (snd r), origin = PLUGIN_NAME\<rparr>"
  by (simp add: diagnostic_def settle_def getArtifact_request vfile_message_def
      extractArtifact_def Let_def)

lemma diagnostic_fetched:
  "fetch w i (artifact_request opts r) = Response 200 txt b \<Longrightarrow>
   unzip w i (getDestinationDir (vFile st)) b = None \<Longrightarrow>
     diagnostic w opts st i r =
       \<lparr>kind = Info,
        reason = ''artifacts fetched from '' @ template (projectId_of r) @ '' '' @ template (jobName_of r),
        location = position (snd r), origin = PLUGIN_NAME\<rparr>"
  by (simp add: diagnostic_def settle_def getArtifact_request vfile_info_def
      extractArtifact_def Let_def)

lemma settle_all_frame:
  "data (vFile (settle_all w opts nodes order s)) = data (vFile s)"
  "dirname (vFile (settle_all w opts nodes order s)) = dirname (vFile s)"
  "net (settle_all w opts nodes order s) = net s"
  unfolding settle_all_def by (induction order arbitrary: s; simp add: settle_frame)+

lemma settle_all_Cons:
  "settle_all w opts nodes (i # order) s = settle_all w opts nodes order (settle w opts i (nodes ! i) s)"
  by (simp add: settle_all_def)

lemma settle_all_messages:
  "messages (vFile (settle_all w opts nodes order s)) =
     messages (vFile s) @ map (\<lambda>i. diagnostic w opts s i (nodes ! i)) order"
proof (induction order arbitrary: s)
  case Nil
  show ?case by (simp add: settle_all_def)
next
  case (Cons i order)
  have "\<And>j. diagnostic w opts (settle w opts i (nodes ! i) s) j (nodes ! j) = diagnostic w opts s j (nodes ! j)"
    by (rule diagnostic_frame) (simp_all add: settle_frame)
  then show ?case by (simp add: settle_all_Cons Cons.IH settle_messages)
qed

lemma settle_all_disk:
  "disk (settle_all w opts nodes order s) =
     disk s @ concat (map (\<lambda>i. extraction w opts s i (nodes ! i)) order)"
proof (induction order arbitrary: s)
  case Nil
  show ?case by (simp add: settle_all_def)
next
  case (Cons i order)
  have "\<And>j. extraction w opts (settle w opts i (nodes ! i) s) j (nodes ! j) = extraction w opts s j (nodes ! j)"
    by (rule extraction_frame) (simp_all add: settle_frame)
  then show ?case by (simp add: settle_all_Cons Cons.IH settle_disk)
qed

lemma settle_all_tree:
  "tree (settle_all w opts nodes order s) =
     clear_titles (map (\<lambda>i. fst (nodes ! i))
                     (filter (\<lambda>i. kind (diagnostic w opts s i (nodes ! i)) = Info) order))
       (tree s)"
proof (induction order arbitrary: s)
  case Nil
  show ?case by (simp add: settle_all_def clear_titles_def)
next
  case (Cons i order)
  have "\<And>j. diagnostic w opts (settle w opts i (nodes ! i) s) j (nodes ! j) = diagnostic w opts s j (nodes ! j)"
    by (rule diagnostic_frame) (simp_all add: settle_frame)
  then show ?case by (simp add: settle_all_Cons Cons.IH settle_tree clear_titles_def)
qed

section \<open>One run of the transformer\<close>

lemma issue_all_requests: "issue_all w opts nodes = map (artifact_request opts) nodes"
proof -
  have "concat (map (\<lambda>(i, r). issue w opts i r) (enumerate k nodes)) = map (artifact_request opts) nodes" for k
    by (induction nodes arbitrary: k) (simp_all add: issue_request)
  then show ?thesis by (simp add: issue_all_def)
qed

lemma visit_scan:
  assumes "visit ''link'' visitor [] t [] = Inr nodes"
  shows "nodes = filter pushed (refs [] t)" "\<forall>r \<in> set (refs [] t). \<not> faulty r"
  using assms visit_refs(1) [of "[]" t "[]"] by (auto split: if_splits)

lemma visit_total:
  "visit ''link'' visitor [] t [] = Inl scan_fault \<or> visit ''link'' visitor [] t [] = Inr (filter pushed (refs [] t))"
  using visit_refs(1) [of "[]" t "[]"] by (auto split: if_splits)

lemma visitLink_fault:
  "visit ''link'' visitor [] (tree st) [] = Inl e \<Longrightarrow> visitLink w sched opts st = Inl e"
  by (simp add: visitLink_def)

lemma visitLink_run:
  assumes "visit ''link'' visitor [] (tree st) [] = Inr nodes"
  shows "visitLink w sched opts st =
           Inr (settle_all w opts nodes (completion_order sched (length nodes))
                  (st\<lparr>net := net st @ map (artifact_request opts) nodes\<rparr>))"
proof (cases "nodes = []")
  case True
  then show ?thesis using assms by (simp add: visitLink_def settle_all_def completion_order_def)
next
  case False
  then show ?thesis using assms by (simp add: visitLink_def issue_all_requests)
qed

lemma transformer_state:
  "snd (transformer w sched opts next st) = (case visitLink w sched opts st of Inl e \<Rightarrow> st | Inr s \<Rightarrow> s)"
  by (simp add: transformer_def Let_def split: option.splits)

lemma transformer_run:
  assumes "visit ''link'' visitor [] (tree st) [] = Inr nodes"
  shows "snd (transformer w sched opts next st) =
           settle_all w opts nodes (completion_order sched (length nodes))
             (st\<lparr>net := net st @ map (artifact_request opts) nodes\<rparr>)"
  by (simp add: transformer_state visitLink_run [OF assms])

lemma run_net:
  assumes "visit ''link'' visitor [] (tree st) [] = Inr nodes"
  shows "net (snd (transformer w sched opts next st)) = net st @ map (artifact_request opts) nodes"
  by (simp add: transformer_run [OF assms] settle_all_frame)

lemma run_messages:
  assumes "visit ''link'' visitor [] (tree st) [] = Inr nodes"
  shows "messages (vFile (snd (transformer w sched opts next st))) =
           messages (vFile st) @ map (\<lambda>i. diagnostic w opts st i (nodes ! i)) (completion_order sched (length nodes))"
proof -
  have "\<And>i. diagnostic w opts (st\<lparr>net := net st @ map (artifact_request opts) nodes\<rparr>) i (nodes ! i) = diagnostic w opts st i (nodes ! i)"
    by (rule diagnostic_frame) simp_all
  then show ?thesis by (simp add: transformer_run [OF assms] settle_all_messages)
qed

lemma run_disk:
  assumes "visit ''link'' visitor [] (tree st) [] = Inr nodes"
  shows "disk (snd (transformer w sched opts next st)) =
           disk st @ concat (map (\<lambda>i. extraction w opts st i (nodes ! i)) (completion_order sched (length nodes)))"
proof -
  have "\<And>i. extraction w opts (st\<lparr>net := net st @ map (artifact_request opts) nodes\<rparr>) i (nodes ! i) = extraction w opts st i (nodes ! i)"
    by (rule extraction_frame) simp_all
  then show ?thesis by (simp add: transformer_run [OF assms] settle_all_disk)
qed

lemma run_tree:
  assumes "visit ''link'' visitor [] (tree st) [] = Inr nodes"
  shows "tree (snd (transformer w sched opts next st)) =
           clear_titles (map (\<lambda>i. fst (nodes ! i))
               (filter (\<lambda>i. kind (diagnostic w opts st i (nodes ! i)) = Info) (completion_order sched (length nodes))))
             (tree st)"
proof -
  have "\<And>i. diagnostic w opts (st\<lparr>net := net st @ map (artifact_request opts) nodes\<rparr>) i (nodes ! i) = diagnostic w opts st i (nodes ! i)"
    by (rule diagnostic_frame) simp_all
  then show ?thesis by (simp add: transformer_run [OF assms] settle_all_tree)
qed

lemma run_vfile:
  "data (vFile (snd (transformer w sched opts next st))) = data (vFile st)"
  "dirname (vFile (snd (transformer w sched opts next st))) = dirname (vFile st)"
  using visit_total [of "tree st"]
  by (auto simp: transformer_state visitLink_fault visitLink_run settle_all_frame)

lemma scan_paths_distinct:
  assumes "visit ''link'' visitor [] t [] = Inr nodes"
  shows "distinct (map fst nodes)"
  using visit_scan(1) [OF assms] refs_distinct(1) [of "[]" t] by (simp add: distinct_map_filter)

lemma scan_get:
  assumes "visit ''link'' visitor [] t [] = Inr nodes" "r \<in> set nodes"
  shows "get (fst r) t = Some (snd r)" "pushed r"
  using visit_scan(1) [OF assms(1)] assms(2) refs_get(1) [of "fst r" "snd r" "[]" t] by auto

lemma collected_title_is_string:
  assumes "visit ''link'' visitor [] t [] = Inr nodes" "r \<in> set nodes"
  shows "\<exists>s. title (snd r) = Str s"
  using scan_get(2) [OF assms]
  by (cases "title (snd r)") (simp_all add: pushed_def references_artifact_def)

lemma count_list_distinct: "distinct xs \<Longrightarrow> x \<in> set xs \<Longrightarrow> count_list xs x = 1"
  by (induction xs) auto

lemma count_completion_order:
  "i < n \<Longrightarrow> count_list (completion_order sched n) i = 1"
  by (rule count_list_distinct) (simp_all add: completion_order_distinct completion_order_set)

section \<open>The fetch operation\<close>

text \<open>
  C6. For every base, token, project and job, \<open>getArtifact\<close> issues exactly one request:
  a GET to \<open>{apiBase}/api/v4/projects/{projectId}/jobs/artifacts/master/download?job={jobName}\<close>
  whose only header is \<open>PRIVATE-TOKEN: {token}\<close>; and it returns a body \<open>b\<close> exactly when
  the response to that request has status 200 and body \<open>b\<close>.
\<close>

theorem getArtifact_single_get:
  "fst (getArtifact w i base token projectId jobName) =
     [\<lparr>http_method = ''GET'',
       url = template base @ ''/api/v4/projects/'' @ template projectId
               @ ''/jobs/artifacts/master/download?job='' @ template jobName,
       headers = [(''PRIVATE-TOKEN'', token)]\<rparr>]
   \<and> (snd (getArtifact w i base token projectId jobName) = Inr b) =
       (\<exists>txt. fetch w i \<lparr>http_method = ''GET'',
                          url = template base @ ''/api/v4/projects/'' @ template projectId
                                  @ ''/jobs/artifacts/master/download?job='' @ template jobName,
                          headers = [(''PRIVATE-TOKEN'', token)]\<rparr> = Response 200 txt b)"
  by (auto simp: getArtifact_def artifact_url_def Let_def split: fetch_result.splits)

section \<open>A link's task, by its outcome\<close>

lemma scan_index_unique:
  assumes scan: "visit ''link'' visitor [] t [] = Inr nodes"
    and "i < length nodes" "j < length nodes" "fst (nodes ! j) = fst (nodes ! i)"
  shows "j = i"
proof -
  have "distinct (map fst nodes)" by (rule scan_paths_distinct [OF scan])
  moreover have "map fst nodes ! j = map fst nodes ! i" using assms by simp
  moreover have "i < length (map fst nodes)" "j < length (map fst nodes)" using assms by simp_all
  ultimately show ?thesis by (simp only: nth_eq_iff_index_eq)
qed



lemma run_title:
  assumes scan: "visit ''link'' visitor [] (tree st) [] = Inr nodes" and i: "i < length nodes"
  shows "map_option title (get (fst (nodes ! i)) (tree (snd (transformer w sched opts next st)))) =
           Some (if kind (diagnostic w opts st i (nodes ! i)) = Info then Str [] else title (snd (nodes ! i)))"
proof -
  define order where "order = completion_order sched (length nodes)"
  define ok where "ok = (\<lambda>j. kind (diagnostic w opts st j (nodes ! j)) = Info)"
  define ps where "ps = map (\<lambda>j. fst (nodes ! j)) (filter ok order)"
  define p where "p = fst (nodes ! i)"
  have t': "tree (snd (transformer w sched opts next st)) = clear_titles ps (tree st)"
    unfolding ps_def ok_def order_def by (rule run_tree [OF scan])
  have "nodes ! i \<in> set nodes" using i by simp
  from scan_get(1) [OF scan this] have g: "get p (tree st) = Some (snd (nodes ! i))"
    by (simp add: p_def)
  have "get p (clear_titles ps (tree st)) \<noteq> None"
    unfolding get_clear_titles_None using g by simp
  then obtain m' where m': "get p (clear_titles ps (tree st)) = Some m'"
    by (cases "get p (clear_titles ps (tree st))") simp_all
  from get_clear_titles_Some [OF m'] obtain m where
    m: "get p (tree st) = Some m \<and> ntype m' = ntype m \<and> position m' = position m \<and>
        title m' = (if p \<in> set ps then Str [] else title m)" ..
  with g have msnd: "m = snd (nodes ! i)" by simp
  have mem: "p \<in> set ps \<longleftrightarrow> ok i"
  proof
    assume "p \<in> set ps"
    then have "p \<in> (\<lambda>j. fst (nodes ! j)) ` set (filter ok order)" by (simp only: ps_def set_map)
    then obtain j where j: "j \<in> set (filter ok order)" "p = fst (nodes ! j)" by (rule imageE)
    from j(1) have "j \<in> set order" "ok j" by simp_all
    then have "j < length nodes" by (simp add: order_def completion_order_set)
    from scan_index_unique [OF scan i this] j(2) have "j = i" by (simp add: p_def)
    with \<open>ok j\<close> show "ok i" by simp
  next
    assume "ok i"
    moreover have "i \<in> set order" using i by (simp add: order_def completion_order_set)
    ultimately have "i \<in> set (filter ok order)" by simp
    then have "fst (nodes ! i) \<in> (\<lambda>j. fst (nodes ! j)) ` set (filter ok order)" by (rule imageI)
    then show "p \<in> set ps" by (simp only: ps_def set_map p_def)
  qed
  have "title m' = (if ok i then Str [] else title (snd (nodes ! i)))"
    using m msnd mem by simp
  then have "map_option title (get p (clear_titles ps (tree st))) =
      Some (if ok i then Str [] else title (snd (nodes ! i)))"
    by (simp add: m')
  then show ?thesis unfolding t' p_def ok_def .
qed


text \<open>
  C3. For every link the scan collected whose task fails (the fetch is rejected, or the
  response's status is not 200, or unzipping emits an error), the run leaves the node's
  title as it was, still referencing the artifact; the report gains one entry per
  collected link, in completion order, this link's task completing exactly once; and this
  link's entry is a message at the node's position from the plugin, whose text, for a
  status other than 200, is the response's status text, \<open>from\<close>, and the request's URL.
\<close>

theorem failed_task_keeps_title_and_reports:
  assumes scan: "visit ''link'' visitor [] (tree st) [] = Inr nodes"
    and i: "i < length nodes"
    and failure:
      "(\<exists>e. fetch w i (artifact_request opts (nodes ! i)) = Rejected e \<and> msg = emessage e) \<or>
       (\<exists>sc txt b. fetch w i (artifact_request opts (nodes ! i)) = Response sc txt b \<and> sc \<noteq> 200 \<and>
          msg = txt @ '' from '' @ url (artifact_request opts (nodes ! i)) @ ''.'') \<or>
       (\<exists>txt b e. fetch w i (artifact_request opts (nodes ! i)) = Response 200 txt b \<and>
          unzip w i (getDestinationDir (vFile st)) b = Some e \<and> msg = emessage e)"
  shows "map_option title (get (fst (nodes ! i)) (tree (snd (transformer w sched opts next st)))) =
           Some (title (snd (nodes ! i)))
       \<and> references_artifact (title (snd (nodes ! i)))
       \<and> messages (vFile (snd (transformer w sched opts next st))) =
           messages (vFile st) @
           map (\<lambda>j. diagnostic w opts st j (nodes ! j)) (completion_order sched (length nodes))
       \<and> count_list (completion_order sched (length nodes)) i = 1
       \<and> diagnostic w opts st i (nodes ! i) =
           \<lparr>kind = Message, reason = msg, location = position (snd (nodes ! i)), origin = PLUGIN_NAME\<rparr>"
proof -
  let ?rq = "artifact_request opts (nodes ! i)"
  let ?entry = "\<lparr>kind = Message, reason = msg, location = position (snd (nodes ! i)), origin = PLUGIN_NAME\<rparr>"
  from failure consider
      (rejected) e where "fetch w i ?rq = Rejected e" "msg = emessage e"
    | (status) sc tx b where "fetch w i ?rq = Response sc tx b" "sc \<noteq> 200"
        "msg = tx @ '' from '' @ url ?rq @ ''.''"
    | (unzip) tx b e where "fetch w i ?rq = Response 200 tx b"
        "unzip w i (getDestinationDir (vFile st)) b = Some e" "msg = emessage e"
    by blast
  then have d: "diagnostic w opts st i (nodes ! i) = ?entry"
  proof cases
    case rejected
    then show ?thesis by (simp add: diagnostic_rejected)
  next
    case status
    then show ?thesis by (simp add: diagnostic_status)
  next
    case unzip
    then show ?thesis by (simp add: diagnostic_unzip)
  qed
  then have "kind (diagnostic w opts st i (nodes ! i)) \<noteq> Info" by simp
  then have t: "map_option title (get (fst (nodes ! i)) (tree (snd (transformer w sched opts next st)))) =
               Some (title (snd (nodes ! i)))"
    using run_title [OF scan i, of w sched opts "next"] by simp
  have r: "references_artifact (title (snd (nodes ! i)))"
    using scan_get(2) [OF scan, of "nodes ! i"] i by (simp add: pushed_def)
  show ?thesis
    by (intro conjI) (rule t r d run_messages [OF scan] count_completion_order [OF i])+
qed

theorem failed_task_witness:
  "map_option title (get [0, 0]
      (tree (snd (transformer (answering 404 ''Not Found'') [] (gitlab ''fail'') no_next
                    (start (document [link ''gitlab-artifact|1095|build:docs'' 3])))))) =
     Some (Str ''gitlab-artifact|1095|build:docs'')
   \<and> messages (vFile (snd (transformer (answering 404 ''Not Found'') [] (gitlab ''fail'') no_next
                    (start (document [link ''gitlab-artifact|1095|build:docs'' 3]))))) =
     [\<lparr>kind = Message,
       reason = ''Not Found from https://src.temando.io/api/v4/projects/1095/jobs/artifacts/master/download?job=build:docs.'',
       location = Some (Position 3 1 3 60), origin = ''remark-gitlab-artifact''\<rparr>]"
proof -
  define l where "l = link ''gitlab-artifact|1095|build:docs'' 3"
  define st where "st = start (document [l])"
  define w where "w = answering 404 ''Not Found''"
  define opts where "opts = gitlab ''fail''"
  define msg where "msg = ''Not Found from https://src.temando.io/api/v4/projects/1095/jobs/artifacts/master/download?job=build:docs.''"
  define nodes :: "ref list" where "nodes = [([0, 0], l)]"
  have scan: "visit ''link'' visitor [] (tree st) [] = Inr nodes"
    unfolding st_def l_def nodes_def by code_simp
  have i: "0 < length nodes" by (simp add: nodes_def)
  have "fetch w 0 (artifact_request opts (nodes ! 0)) = Response 404 ''Not Found'' ''PK''"
    unfolding w_def by (simp add: answering_def)
  moreover have "(404::int) \<noteq> 200" by simp
  moreover have "msg = ''Not Found'' @ '' from '' @ url (artifact_request opts (nodes ! 0)) @ ''.''"
    unfolding msg_def opts_def l_def nodes_def by code_simp
  ultimately have failure:
    "(\<exists>e. fetch w 0 (artifact_request opts (nodes ! 0)) = Rejected e \<and> msg = emessage e) \<or>
     (\<exists>sc tx b. fetch w 0 (artifact_request opts (nodes ! 0)) = Response sc tx b \<and> sc \<noteq> 200 \<and>
        msg = tx @ '' from '' @ url (artifact_request opts (nodes ! 0)) @ ''.'') \<or>
     (\<exists>tx b e. fetch w 0 (artifact_request opts (nodes ! 0)) = Response 200 tx b \<and>
        unzip w 0 (getDestinationDir (vFile st)) b = Some e \<and> msg = emessage e)"
    by (intro disjI2 disjI1 exI conjI)
  have ord: "completion_order [] (length nodes) = [0]" unfolding nodes_def by code_simp
  have pos: "position (snd (nodes ! 0)) = Some (Position 3 1 3 60)"
    unfolding l_def nodes_def by code_simp
  have old: "messages (vFile st) = []" unfolding st_def by code_simp
  have ti: "title (snd (nodes ! 0)) = Str ''gitlab-artifact|1095|build:docs''"
    unfolding l_def nodes_def by code_simp
  have p: "fst (nodes ! 0) = [0, 0]" by (simp add: nodes_def)
  note r = failed_task_keeps_title_and_reports [OF scan i failure, of "[]" no_next]
  from r have "map_option title (get (fst (nodes ! 0)) (tree (snd (transformer w [] opts no_next st)))) =
      Some (title (snd (nodes ! 0)))"
    by (rule conjunct1)
  then have "map_option title (get [0, 0] (tree (snd (transformer w [] opts no_next st)))) =
      Some (Str ''gitlab-artifact|1095|build:docs'')"
    unfolding p ti .
  moreover from r have "messages (vFile (snd (transformer w [] opts no_next st))) =
      messages (vFile st) @
      map (\<lambda>j. diagnostic w opts st j (nodes ! j)) (completion_order [] (length nodes))"
    by (elim conjE)
  moreover from r have "diagnostic w opts st 0 (nodes ! 0) =
      \<lparr>kind = Message, reason = msg, location = position (snd (nodes ! 0)), origin = PLUGIN_NAME\<rparr>"
    by (elim conjE)
  ultimately have "map_option title (get [0, 0] (tree (snd (transformer w [] opts no_next st)))) =
      Some (Str ''gitlab-artifact|1095|build:docs'')
    \<and> messages (vFile (snd (transformer w [] opts no_next st))) =
      [\<lparr>kind = Message, reason = msg, location = Some (Position 3 1 3 60), origin = ''remark-gitlab-artifact''\<rparr>]"
    by (simp only: ord old pos PLUGIN_NAME_def list.map append_Nil simp_thms)
  then show ?thesis
    unfolding st_def l_def w_def opts_def msg_def .
qed

text \<open>
  C4. For every link the scan collected whose fetch is answered with status 200 and whose
  archive unzips without error, the run sets the node's title to the empty string; the
  report gains one entry per collected link, in completion order, this link's task
  completing exactly once; and this link's entry is an informational one at the node's
  position from the plugin, with the text \<open>artifacts fetched from {projectId} {jobName}\<close>.
\<close>

theorem fetched_task_clears_title_and_reports:
  assumes scan: "visit ''link'' visitor [] (tree st) [] = Inr nodes"
    and i: "i < length nodes"
    and fetched: "fetch w i (artifact_request opts (nodes ! i)) = Response 200 tx b"
    and unzipped: "unzip w i (getDestinationDir (vFile st)) b = None"
  shows "map_option title (get (fst (nodes ! i)) (tree (snd (transformer w sched opts next st)))) =
           Some (Str [])
       \<and> messages (vFile (snd (transformer w sched opts next st))) =
           messages (vFile st) @
           map (\<lambda>j. diagnostic w opts st j (nodes ! j)) (completion_order sched (length nodes))
       \<and> count_list (completion_order sched (length nodes)) i = 1
       \<and> diagnostic w opts st i (nodes ! i) =
           \<lparr>kind = Info,
            reason = ''artifacts fetched from '' @ template (projectId_of (nodes ! i)) @ '' ''
                       @ template (jobName_of (nodes ! i)),
            location = position (snd (nodes ! i)), origin = PLUGIN_NAME\<rparr>"
proof -
  have d: "diagnostic w opts st i (nodes ! i) =
           \<lparr>kind = Info,
            reason = ''artifacts fetched from '' @ template (projectId_of (nodes ! i)) @ '' ''
                       @ template (jobName_of (nodes ! i)),
            location = position (snd (nodes ! i)), origin = PLUGIN_NAME\<rparr>"
    by (rule diagnostic_fetched [OF fetched unzipped])
  then have "kind (diagnostic w opts st i (nodes ! i)) = Info" by simp
  then have t: "map_option title (get (fst (nodes ! i)) (tree (snd (transformer w sched opts next st)))) =
               Some (Str [])"
    using run_title [OF scan i, of w sched opts "next"] by simp
  show ?thesis
    by (intro conjI) (rule t d run_messages [OF scan] count_completion_order [OF i])+
qed

theorem fetched_task_witness:
  "map_option title (get [0, 0]
      (tree (snd (transformer (answering 200 ''OK'') [] (gitlab ''success'') no_next
                    (start (document [link ''gitlab-artifact|1095|build:docs'' 3])))))) =
     Some (Str [])
   \<and> messages (vFile (snd (transformer (answering 200 ''OK'') [] (gitlab ''success'') no_next
                    (start (document [link ''gitlab-artifact|1095|build:docs'' 3]))))) =
     [\<lparr>kind = Info, reason = ''artifacts fetched from 1095 build:docs'',
       location = Some (Position 3 1 3 60), origin = ''remark-gitlab-artifact''\<rparr>]"
proof -
  define l where "l = link ''gitlab-artifact|1095|build:docs'' 3"
  define st where "st = start (document [l])"
  define w where "w = answering 200 ''OK''"
  define opts where "opts = gitlab ''success''"
  define nodes :: "ref list" where "nodes = [([0, 0], l)]"
  have scan: "visit ''link'' visitor [] (tree st) [] = Inr nodes"
    unfolding st_def l_def nodes_def by code_simp
  have i: "0 < length nodes" by (simp add: nodes_def)
  have fetched: "fetch w 0 (artifact_request opts (nodes ! 0)) = Response 200 ''OK'' ''PK''"
    unfolding w_def by (simp add: answering_def)
  have unzipped: "unzip w 0 (getDestinationDir (vFile st)) ''PK'' = None"
    unfolding w_def by (simp add: answering_def)
  have ord: "completion_order [] (length nodes) = [0]" unfolding nodes_def by code_simp
  have pos: "position (snd (nodes ! 0)) = Some (Position 3 1 3 60)"
    unfolding l_def nodes_def by code_simp
  have old: "messages (vFile st) = []" unfolding st_def by code_simp
  have rs: "''artifacts fetched from '' @ template (projectId_of (nodes ! 0)) @ '' ''
               @ template (jobName_of (nodes ! 0)) = ''artifacts fetched from 1095 build:docs''"
    unfolding l_def nodes_def by code_simp
  have p: "fst (nodes ! 0) = [0, 0]" by (simp add: nodes_def)
  note r = fetched_task_clears_title_and_reports [OF scan i fetched unzipped, of "[]" no_next]
  from r have "map_option title (get (fst (nodes ! 0)) (tree (snd (transformer w [] opts no_next st)))) =
      Some (Str [])"
    by (rule conjunct1)
  then have "map_option title (get [0, 0] (tree (snd (transformer w [] opts no_next st)))) = Some (Str [])"
    unfolding p .
  moreover from r have "messages (vFile (snd (transformer w [] opts no_next st))) =
      messages (vFile st) @
      map (\<lambda>j. diagnostic w opts st j (nodes ! j)) (completion_order [] (length nodes))"
    by (elim conjE)
  moreover from r have "diagnostic w opts st 0 (nodes ! 0) =
      \<lparr>kind = Info,
       reason = ''artifacts fetched from '' @ template (projectId_of (nodes ! 0)) @ '' ''
                  @ template (jobName_of (nodes ! 0)),
       location = position (snd (nodes ! 0)), origin = PLUGIN_NAME\<rparr>"
    by (elim conjE)
  ultimately have "map_option title (get [0, 0] (tree (snd (transformer w [] opts no_next st)))) = Some (Str [])
    \<and> messages (vFile (snd (transformer w [] opts no_next st))) =
      [\<lparr>kind = Info, reason = ''artifacts fetched from 1095 build:docs'',
        location = Some (Position 3 1 3 60), origin = ''remark-gitlab-artifact''\<rparr>]"
    by (simp only: ord old pos rs PLUGIN_NAME_def list.map append_Nil simp_thms)
  then show ?thesis
    unfolding st_def l_def w_def opts_def .
qed

section \<open>A document without artifact references\<close>

lemma idle_scan:
  assumes "\<forall>r \<in> set (refs [] t). ntype (snd r) = ''link'' \<longrightarrow> \<not> references_artifact (title (snd r))"
  shows "visit ''link'' visitor [] t [] = Inl scan_fault \<or> visit ''link'' visitor [] t [] = Inr []"
proof -
  have "filter pushed (refs [] t) = []"
    using assms by (simp add: filter_empty_conv pushed_def)
  then show ?thesis using visit_total [of t] by simp
qed

lemma idle_visitLink:
  assumes "visit ''link'' visitor [] (tree st) [] = Inl scan_fault \<or> visit ''link'' visitor [] (tree st) [] = Inr []"
  shows "(case visitLink w sched opts st of Inl e \<Rightarrow> st | Inr s \<Rightarrow> s) = st"
  using assms by (auto simp: visitLink_def)

lemma idle_transformer:
  assumes "visit ''link'' visitor [] (tree st) [] = Inl scan_fault \<or> visit ''link'' visitor [] (tree st) [] = Inr []"
  shows "transformer w sched opts next st =
           ((case next of Some k \<Rightarrow> Next (k (tree st) (vFile st)) | None \<Rightarrow> Tree (tree st)), st)"
  using idle_visitLink [OF assms, of w sched opts]
  by (simp add: transformer_def Let_def split: option.splits)

text \<open>
  C5, as the spec states it, fails where it differs from the scanner: the spec's reference
  syntax is the marker followed by exactly two segments, and the title
  \<open>gitlab-artifact|1095\<close> (two segments in all) does not match it; yet the link is
  collected, a request is issued and the report gains an entry.
\<close>

theorem no_reference_counterexample:
  "net (snd (transformer (answering 404 ''Not Found'') [] (gitlab ''fail'') no_next
              (start (document [link ''gitlab-artifact|1095'' 3])))) =
     [\<lparr>http_method = ''GET'',
       url = ''https://src.temando.io/api/v4/projects/1095/jobs/artifacts/master/download?job=undefined'',
       headers = [(''PRIVATE-TOKEN'', Str ''fail'')]\<rparr>]
   \<and> net (start (document [link ''gitlab-artifact|1095'' 3])) = []
   \<and> messages (vFile (snd (transformer (answering 404 ''Not Found'') [] (gitlab ''fail'') no_next
              (start (document [link ''gitlab-artifact|1095'' 3]))))) =
     [\<lparr>kind = Message,
       reason = ''Not Found from https://src.temando.io/api/v4/projects/1095/jobs/artifacts/master/download?job=undefined.'',
       location = Some (Position 3 1 3 60), origin = ''remark-gitlab-artifact''\<rparr>]
   \<and> messages (vFile (start (document [link ''gitlab-artifact|1095'' 3]))) = []
   \<and> length (js_split CHR ''|'' ''gitlab-artifact|1095'') = 2"
  by (intro conjI; code_simp)

text \<open>
  C5, amended. For every document in which no link's title references an artifact in the
  scanner's sense (no link has a non-empty string title containing the marker), the
  transformer leaves everything as it was: no request is issued, the tree and the report
  are unchanged, nothing is extracted; and the tree it returns or forwards is the one it
  was given.
\<close>

theorem no_reference_no_effect:
  assumes "\<forall>r \<in> set (refs [] (tree st)).
             ntype (snd r) = ''link'' \<longrightarrow> \<not> references_artifact (title (snd r))"
  shows "transformer w sched opts next st =
           ((case next of Some k \<Rightarrow> Next (k (tree st) (vFile st)) | None \<Rightarrow> Tree (tree st)), st)"
  by (rule idle_transformer [OF idle_scan [OF assms]])

theorem no_reference_witness:
  "transformer (answering 200 ''OK'') [] (gitlab ''skip'') no_next
     (start (document [link ''A plain title'' 1, Node ''link'' Null None [], link [] 2])) =
   (Tree (document [link ''A plain title'' 1, Node ''link'' Null None [], link [] 2]),
    start (document [link ''A plain title'' 1, Node ''link'' Null None [], link [] 2]))"
proof -
  define st where "st = start (document [link ''A plain title'' 1, Node ''link'' Null None [], link [] 2])"
  have h: "\<forall>r \<in> set (refs [] (tree st)).
             ntype (snd r) = ''link'' \<longrightarrow> \<not> references_artifact (title (snd r))"
    unfolding st_def by code_simp
  have t: "tree st = document [link ''A plain title'' 1, Node ''link'' Null None [], link [] 2]"
    by (simp add: st_def start_def)
  from no_reference_no_effect [OF h, of "answering 200 ''OK''" "[]" "gitlab ''skip''" no_next]
  have "transformer (answering 200 ''OK'') [] (gitlab ''skip'') no_next st = (Tree (tree st), st)"
    by (simp add: no_next_def)
  then show ?thesis unfolding t unfolding st_def .
qed

section \<open>Where archives are extracted\<close>

lemma extraction_fetched:
  "fetch w i (artifact_request opts r) = Response 200 tx b \<Longrightarrow>
     extraction w opts st i r = [(getDestinationDir (vFile st), b)]"
  by (simp add: extraction_def settle_def getArtifact_request Let_def split: sum.splits)

text \<open>
  C7. In a run on any document, every extraction goes to one directory: the file's
  \<open>data.destinationDir\<close> when that value is truthy, and the file's own \<open>dirname\<close>
  otherwise. The extractions a run starts are appended to those started before, each into
  that directory, and every collected link whose fetch is answered with status 200 has its
  body extracted there.
\<close>

theorem extraction_directory:
  assumes scan: "visit ''link'' visitor [] (tree st) [] = Inr nodes"
  shows "\<exists>new. disk (snd (transformer w sched opts next st)) = disk st @ new
           \<and> (\<forall>x \<in> set new.
                 fst x = (if truthy (destinationDir (data (vFile st)))
                          then destinationDir (data (vFile st)) else dirname (vFile st)))
           \<and> (\<forall>i < length nodes. \<forall>tx b.
                 fetch w i (artifact_request opts (nodes ! i)) = Response 200 tx b \<longrightarrow>
                 ((if truthy (destinationDir (data (vFile st)))
                   then destinationDir (data (vFile st)) else dirname (vFile st)), b) \<in> set new)"
proof -
  define order where "order = completion_order sched (length nodes)"
  define new where "new = concat (map (\<lambda>i. extraction w opts st i (nodes ! i)) order)"
  define dir where "dir = (if truthy (destinationDir (data (vFile st)))
                          then destinationDir (data (vFile st)) else dirname (vFile st))"
  have dir: "getDestinationDir (vFile st) = dir" by (simp add: dir_def getDestinationDir_def)
  have 1: "disk (snd (transformer w sched opts next st)) = disk st @ new"
    unfolding new_def order_def by (rule run_disk [OF scan])
  have 2: "fst x = dir" if "x \<in> set new" for x
  proof -
    from that obtain i where "x \<in> set (extraction w opts st i (nodes ! i))"
      unfolding new_def by auto
    from extraction_dir [OF this] show ?thesis by (simp add: dir)
  qed
  have 3: "(dir, b) \<in> set new"
    if "i < length nodes" "fetch w i (artifact_request opts (nodes ! i)) = Response 200 tx b" for i tx b
  proof -
    have "i \<in> set order" using that(1) by (simp add: order_def completion_order_set)
    moreover have "(dir, b) \<in> set (extraction w opts st i (nodes ! i))"
      by (simp add: extraction_fetched [OF that(2)] dir)
    ultimately show ?thesis unfolding new_def by auto
  qed
  from 1 2 3 have "disk (snd (transformer w sched opts next st)) = disk st @ new
           \<and> (\<forall>x \<in> set new. fst x = dir)
           \<and> (\<forall>i < length nodes. \<forall>tx b.
                 fetch w i (artifact_request opts (nodes ! i)) = Response 200 tx b \<longrightarrow> (dir, b) \<in> set new)"
    by blast
  then show ?thesis unfolding dir_def by (rule exI)
qed


theorem extraction_directory_witness:
  "fst ` set (disk (snd (transformer (answering 200 ''OK'') [] (gitlab ''success'') no_next
                     (start (document [link ''gitlab-artifact|1095|build:docs'' 3]))))) =
     {Str ''/test/runtime''}
   \<and> (Str ''/test/runtime'', ''PK'') \<in>
       set (disk (snd (transformer (answering 200 ''OK'') [] (gitlab ''success'') no_next
                     (start (document [link ''gitlab-artifact|1095|build:docs'' 3])))))"
proof -
  define l where "l = link ''gitlab-artifact|1095|build:docs'' 3"
  define st where "st = start (document [l])"
  define w where "w = answering 200 ''OK''"
  define opts where "opts = gitlab ''success''"
  define nodes :: "ref list" where "nodes = [([0, 0], l)]"
  define dir where "dir = (if truthy (destinationDir (data (vFile st)))
                          then destinationDir (data (vFile st)) else dirname (vFile st))"
  have scan: "visit ''link'' visitor [] (tree st) [] = Inr nodes"
    unfolding st_def l_def nodes_def by code_simp
  have i: "0 < length nodes" by (simp add: nodes_def)
  have fetched: "fetch w 0 (artifact_request opts (nodes ! 0)) = Response 200 ''OK'' ''PK''"
    unfolding w_def by (simp add: answering_def)
  have dir: "dir = Str ''/test/runtime''" unfolding dir_def st_def by code_simp
  have old: "disk st = []" unfolding st_def by code_simp
  from extraction_directory [OF scan, of w "[]" opts no_next]
  obtain new where new: "disk (snd (transformer w [] opts no_next st)) = disk st @ new"
    "\<forall>x \<in> set new. fst x = dir"
    "\<forall>i < length nodes. \<forall>tx b.
        fetch w i (artifact_request opts (nodes ! i)) = Response 200 tx b \<longrightarrow> (dir, b) \<in> set new"
    unfolding dir_def by blast
  from new(3) i fetched have m: "(dir, ''PK'') \<in> set new" by blast
  with new(2) have "fst ` set new = {dir}" by force
  with m new(1) have "fst ` set (disk (snd (transformer w [] opts no_next st))) = {dir}
      \<and> (dir, ''PK'') \<in> set (disk (snd (transformer w [] opts no_next st)))"
    by (simp add: old)
  then show ?thesis unfolding dir unfolding st_def l_def w_def opts_def .
qed

section \<open>The token and the report\<close>

lemma settle_token:
  assumes "\<And>i u. fetch w2 i \<lparr>http_method = ''GET'', url = u, headers = [(''PRIVATE-TOKEN'', t2)]\<rparr> =
                  fetch w1 i \<lparr>http_method = ''GET'', url = u, headers = [(''PRIVATE-TOKEN'', t1)]\<rparr>"
    and "unzip w2 = unzip w1"
  shows "settle w2 (opts\<lparr>gitlabApiToken := t2\<rparr>) i r s = settle w1 (opts\<lparr>gitlabApiToken := t1\<rparr>) i r s"
proof -
  have e: "extractArtifact w2 = extractArtifact w1"
    by (intro ext) (simp add: extractArtifact_def assms(2))
  have g: "snd (getArtifact w2 i base t2 p j) = snd (getArtifact w1 i base t1 p j)" for base p j
    by (simp add: getArtifact_def Let_def assms(1))
  show ?thesis unfolding settle_def Let_def e by (simp add: g)
qed

text \<open>
  C9. The token does not reach the report: two runs on the same document, schedule and
  options that differ only in the token, in worlds that answer each link's request to a
  URL alike whichever of the two tokens it carries and that unzip alike, end with the
  same report.
\<close>

theorem report_independent_of_token:
  assumes same_fetch:
      "\<And>i u. fetch w2 i \<lparr>http_method = ''GET'', url = u, headers = [(''PRIVATE-TOKEN'', t2)]\<rparr> =
              fetch w1 i \<lparr>http_method = ''GET'', url = u, headers = [(''PRIVATE-TOKEN'', t1)]\<rparr>"
    and same_unzip: "unzip w2 = unzip w1"
  shows "messages (vFile (snd (transformer w2 sched (opts\<lparr>gitlabApiToken := t2\<rparr>) next st))) =
         messages (vFile (snd (transformer w1 sched (opts\<lparr>gitlabApiToken := t1\<rparr>) next st)))"
proof -
  define o1 where "o1 = opts\<lparr>gitlabApiToken := t1\<rparr>"
  define o2 where "o2 = opts\<lparr>gitlabApiToken := t2\<rparr>"
  have d: "diagnostic w2 o2 st i r = diagnostic w1 o1 st i r" for i r
    unfolding diagnostic_def o1_def o2_def
    by (simp only: settle_token [of w2 t2 w1 t1, OF same_fetch same_unzip])
  from visit_total [of "tree st"]
  have "messages (vFile (snd (transformer w2 sched o2 next st))) =
        messages (vFile (snd (transformer w1 sched o1 next st)))"
  proof
    assume "visit ''link'' visitor [] (tree st) [] = Inl scan_fault"
    then show ?thesis by (simp add: transformer_state visitLink_fault)
  next
    assume "visit ''link'' visitor [] (tree st) [] = Inr (filter pushed (refs [] (tree st)))"
    then show ?thesis by (simp only: run_messages d)
  qed
  then show ?thesis unfolding o1_def o2_def .
qed

theorem report_independent_of_token_witness:
  "messages (vFile (snd (transformer (answering 404 ''Not Found'') [] ((gitlab ''fail'')\<lparr>gitlabApiToken := Str ''glpat-secret''\<rparr>) no_next
       (start (document [link ''gitlab-artifact|1095|build:docs'' 3]))))) =
   messages (vFile (snd (transformer (answering 404 ''Not Found'') [] ((gitlab ''fail'')\<lparr>gitlabApiToken := Str ''another''\<rparr>) no_next
       (start (document [link ''gitlab-artifact|1095|build:docs'' 3])))))"
proof -
  have f: "\<And>i u. fetch (answering 404 ''Not Found'') i
              \<lparr>http_method = ''GET'', url = u, headers = [(''PRIVATE-TOKEN'', Str ''glpat-secret'')]\<rparr> =
            fetch (answering 404 ''Not Found'') i
              \<lparr>http_method = ''GET'', url = u, headers = [(''PRIVATE-TOKEN'', Str ''another'')]\<rparr>"
    by (simp add: answering_def)
  have u: "unzip (answering 404 ''Not Found'') = unzip (answering 404 ''Not Found'')" by simp
  show ?thesis by (rule report_independent_of_token [OF f u])
qed

section \<open>The transformer as a whole\<close>













section \<open>Running the transformer again\<close>

lemma diagnostic_Info_iff:
  "kind (diagnostic w opts st i r) = Info \<longleftrightarrow>
     (\<exists>tx b. fetch w i (artifact_request opts r) = Response 200 tx b \<and>
             unzip w i (getDestinationDir (vFile st)) b = None)"
proof (cases "fetch w i (artifact_request opts r)")
  case (Rejected e)
  then show ?thesis by (simp add: diagnostic_rejected)
next
  case (Response sc tx b)
  show ?thesis
  proof (cases "sc = 200")
    case False
    with Response show ?thesis by (simp add: diagnostic_status)
  next
    case True
    show ?thesis
    proof (cases "unzip w i (getDestinationDir (vFile st)) b")
      case None
      with Response True show ?thesis by (simp add: diagnostic_fetched)
    next
      case (Some e)
      with Response True show ?thesis by (simp add: diagnostic_unzip)
    qed
  qed
qed

lemma visitor_empty_title: "visitor (p, Node ty (Str []) pos cs) acc = Inr acc"
  by (simp add: visitor_def)

lemma references_artifact_empty: "\<not> references_artifact (Str [])"
  by (simp add: references_artifact_def)

lemma all_cleared_idle:
  assumes scan: "visit ''link'' visitor [] t [] = Inr nodes"
    and ps: "set ps = fst ` set nodes"
    and r: "r \<in> set (refs [] (clear_titles ps t))" "ntype (snd r) = ''link''"
  shows "\<not> references_artifact (title (snd r))"
proof
  assume ra: "references_artifact (title (snd r))"
  define q where "q = fst r"
  define m' where "m' = snd r"
  have "(q, m') \<in> set (refs [] (clear_titles ps t))" using r(1) by (simp add: q_def m'_def)
  then have "get q (clear_titles ps t) = Some m'" by (simp add: refs_get(1))
  from get_clear_titles_Some [OF this] obtain m where
    m: "get q t = Some m" "ntype m' = ntype m"
       "title m' = (if q \<in> set ps then Str [] else title m)" by blast
  show False
  proof (cases "q \<in> set ps")
    case True
    with m(3) ra show False by (simp add: m'_def references_artifact_empty)
  next
    case False
    with m(3) have "title m' = title m" by simp
    with ra r(2) m(2) have "pushed (q, m)" by (simp add: pushed_def m'_def)
    moreover have "(q, m) \<in> set (refs [] t)" using m(1) by (simp add: refs_get(1))
    ultimately have "(q, m) \<in> set nodes" by (simp add: visit_scan(1) [OF scan])
    then have "fst (q, m) \<in> fst ` set nodes" by (rule imageI)
    with False ps show False by simp
  qed
qed

text \<open>
  C8. After a run in which every collected link's fetch was answered with status 200 and
  every archive unzipped without error (so every collected title is now the empty string),
  a second run, in any world, with any schedule, options and continuation, changes
  nothing: it issues no request, appends no report entry, and leaves tree and extractions
  as they are. The visitor never collects a node whose title is the empty string.
\<close>

theorem second_run_changes_nothing:
  assumes scan: "visit ''link'' visitor [] (tree st) [] = Inr nodes"
    and fetched: "\<forall>i < length nodes. \<exists>tx b.
                    fetch w i (artifact_request opts (nodes ! i)) = Response 200 tx b \<and>
                    unzip w i (getDestinationDir (vFile st)) b = None"
  shows "snd (transformer w' sched' opts' next' (snd (transformer w sched opts next st))) =
           snd (transformer w sched opts next st)
       \<and> net (snd (transformer w' sched' opts' next' (snd (transformer w sched opts next st)))) =
           net st @ map (artifact_request opts) nodes
       \<and> length (messages (vFile (snd (transformer w' sched' opts' next' (snd (transformer w sched opts next st)))))) =
           length (messages (vFile st)) + length nodes
       \<and> visitor (p, Node ty (Str []) pos cs) acc = Inr acc"
proof -
  define st1 where "st1 = snd (transformer w sched opts next st)"
  define order where "order = completion_order sched (length nodes)"
  define ok where "ok = (\<lambda>j. kind (diagnostic w opts st j (nodes ! j)) = Info)"
  define ps where "ps = map (\<lambda>j. fst (nodes ! j)) (filter ok order)"
  have t1: "tree st1 = clear_titles ps (tree st)"
    unfolding st1_def ps_def ok_def order_def by (rule run_tree [OF scan])
  have "ok j" if "j \<in> set order" for j
  proof -
    from that have "j < length nodes" by (simp add: order_def completion_order_set)
    with fetched show ?thesis unfolding ok_def diagnostic_Info_iff by blast
  qed
  then have "filter ok order = order" by (simp add: filter_id_conv)
  then have "set ps = (\<lambda>j. fst (nodes ! j)) ` {0..<length nodes}"
    by (simp add: ps_def order_def completion_order_set)
  also have "\<dots> = fst ` (\<lambda>j. nodes ! j) ` {0..<length nodes}" by (simp only: image_image)
  also have "(\<lambda>j. nodes ! j) ` {0..<length nodes} = set nodes" using nth_image [of "length nodes" nodes] by simp
  finally have ps: "set ps = fst ` set nodes" .
  have "\<forall>r \<in> set (refs [] (tree st1)). ntype (snd r) = ''link'' \<longrightarrow> \<not> references_artifact (title (snd r))"
    unfolding t1 using all_cleared_idle [OF scan ps] by blast
  from idle_transformer [OF idle_scan [OF this], of w' sched' opts' next']
  have idle: "snd (transformer w' sched' opts' next' st1) = st1" by simp
  have n: "net st1 = net st @ map (artifact_request opts) nodes"
    unfolding st1_def by (rule run_net [OF scan])
  have "messages (vFile st1) = messages (vFile st) @ map (\<lambda>i. diagnostic w opts st i (nodes ! i)) order"
    unfolding st1_def order_def by (rule run_messages [OF scan])
  moreover have "length order = length nodes"
    using completion_order_distinct [of sched "length nodes"] completion_order_set [of sched "length nodes"]
      distinct_card [of order] by (simp add: order_def)
  ultimately have l: "length (messages (vFile st1)) = length (messages (vFile st)) + length nodes"
    by simp
  show ?thesis
    unfolding st1_def [symmetric] idle
    by (intro conjI refl n l visitor_empty_title)
qed


theorem second_run_witness:
  "snd (transformer (answering 404 ''Not Found'') [0] (gitlab ''fail'') no_next
         (snd (transformer (answering 200 ''OK'') [1, 0] (gitlab ''success'') no_next
                (start (document [link ''gitlab-artifact|1095|build:docs'' 3,
                                  link ''gitlab-artifact|7|pages'' 5]))))) =
   snd (transformer (answering 200 ''OK'') [1, 0] (gitlab ''success'') no_next
          (start (document [link ''gitlab-artifact|1095|build:docs'' 3,
                            link ''gitlab-artifact|7|pages'' 5])))
   \<and> length (net (snd (transformer (answering 404 ''Not Found'') [0] (gitlab ''fail'') no_next
         (snd (transformer (answering 200 ''OK'') [1, 0] (gitlab ''success'') no_next
                (start (document [link ''gitlab-artifact|1095|build:docs'' 3,
                                  link ''gitlab-artifact|7|pages'' 5]))))))) = 2"
proof -
  define l1 where "l1 = link ''gitlab-artifact|1095|build:docs'' 3"
  define l2 where "l2 = link ''gitlab-artifact|7|pages'' 5"
  define st where "st = start (document [l1, l2])"
  define w where "w = answering 200 ''OK''"
  define opts where "opts = gitlab ''success''"
  define nodes :: "ref list" where "nodes = [([0, 0], l1), ([0, 1], l2)]"
  have scan: "visit ''link'' visitor [] (tree st) [] = Inr nodes"
    unfolding st_def l1_def l2_def nodes_def by code_simp
  have fetched: "\<forall>i < length nodes. \<exists>tx b.
                    fetch w i (artifact_request opts (nodes ! i)) = Response 200 tx b \<and>
                    unzip w i (getDestinationDir (vFile st)) b = None"
    unfolding w_def by (simp add: answering_def)
  have old: "net st = []" unfolding st_def by code_simp
  note r = second_run_changes_nothing [OF scan fetched,
      where w' = "answering 404 ''Not Found''" and sched' = "[0]" and opts' = "gitlab ''fail''"
        and next' = no_next and sched = "[1, 0]" and ?next = no_next
        and p = "[]" and ty = "''link''" and pos = None and cs = "[]" and acc = "[]"]
  from r have a: "snd (transformer (answering 404 ''Not Found'') [0] (gitlab ''fail'') no_next
                       (snd (transformer w [1, 0] opts no_next st))) =
                  snd (transformer w [1, 0] opts no_next st)"
    by (rule conjunct1)
  from r have "net (snd (transformer (answering 404 ''Not Found'') [0] (gitlab ''fail'') no_next
                       (snd (transformer w [1, 0] opts no_next st)))) =
               net st @ map (artifact_request opts) nodes"
    by (elim conjE)
  then have b: "length (net (snd (transformer (answering 404 ''Not Found'') [0] (gitlab ''fail'') no_next
                       (snd (transformer w [1, 0] opts no_next st))))) = 2"
    by (simp add: old nodes_def)
  from a b show ?thesis unfolding st_def l1_def l2_def w_def opts_def by (rule conjI)
qed

section \<open>What the scanner matches, and what a task reads from the title\<close>

lemma references_artifact_iff:
  "references_artifact v \<longleftrightarrow> (\<exists>s. v = Str s \<and> s \<noteq> [] \<and> sublist marker s)"
  by (cases v) (simp_all add: references_artifact_def)

lemma marker_nonempty: "sublist marker s \<Longrightarrow> s \<noteq> []"
  by (auto simp: marker_def)

lemma title_fields:
  assumes "title (snd r) = Str s"
  shows "projectId_of r = element (js_split CHR ''|'' s) 1"
    and "jobName_of r = element (js_split CHR ''|'' s) 2"
    and "length (js_split CHR ''|'' s) < 3 \<Longrightarrow> jobName_of r = Undefined"
  using assms by (simp_all add: projectId_of_def jobName_of_def element_def)

lemma artifact_request_explicit:
  "artifact_request opts r =
     \<lparr>http_method = ''GET'',
      url = template (apiBase opts) @ ''/api/v4/projects/'' @ template (projectId_of r)
              @ ''/jobs/artifacts/master/download?job='' @ template (jobName_of r),
      headers = [(''PRIVATE-TOKEN'', gitlabApiToken opts)]\<rparr>"
  by (simp add: artifact_request_def artifact_url_def)

text \<open>
  C10. When the scan does not throw, the nodes it collects are exactly the links whose
  title is a non-empty string with the marker \<open>gitlab-artifact|\<close> somewhere in it, in
  document order; nothing else is checked. One request is issued per collected node, in
  that order. For a collected node, the project and the job are the second and the third
  segment of the whole title split at \<open>|\<close> (wherever the marker stands), the request is
  built from them, and a title of fewer than three segments gives the job \<open>undefined\<close>,
  rendered as the text \<open>undefined\<close> in the request's URL.
\<close>

theorem scanner_predicate_and_fields:
  assumes scan: "visit ''link'' visitor [] (tree st) [] = Inr nodes"
  shows "marker = ''gitlab-artifact|''
       \<and> nodes = filter (\<lambda>r. ntype (snd r) = ''link'' \<and>
                         (\<exists>s. title (snd r) = Str s \<and> s \<noteq> [] \<and> sublist marker s))
                  (refs [] (tree st))
       \<and> net (snd (transformer w sched opts next st)) = net st @ map (artifact_request opts) nodes
       \<and> (\<forall>r \<in> set nodes. \<exists>s. title (snd r) = Str s
             \<and> projectId_of r = element (js_split CHR ''|'' s) 1
             \<and> jobName_of r = element (js_split CHR ''|'' s) 2
             \<and> artifact_request opts r =
                 \<lparr>http_method = ''GET'',
                  url = template (apiBase opts) @ ''/api/v4/projects/'' @ template (projectId_of r)
                          @ ''/jobs/artifacts/master/download?job='' @ template (jobName_of r),
                  headers = [(''PRIVATE-TOKEN'', gitlabApiToken opts)]\<rparr>
             \<and> (length (js_split CHR ''|'' s) < 3 \<longrightarrow>
                   jobName_of r = Undefined \<and> template (jobName_of r) = ''undefined''))"
proof -
  have 1: "nodes = filter (\<lambda>r. ntype (snd r) = ''link'' \<and>
                         (\<exists>s. title (snd r) = Str s \<and> s \<noteq> [] \<and> sublist marker s))
                  (refs [] (tree st))"
  proof -
    have "pushed = (\<lambda>r. ntype (snd r) = ''link'' \<and>
                         (\<exists>s. title (snd r) = Str s \<and> s \<noteq> [] \<and> sublist marker s))"
      by (intro ext) (simp add: pushed_def references_artifact_iff)
    with visit_scan(1) [OF scan] show ?thesis by simp
  qed
  have 2: "net (snd (transformer w sched opts next st)) = net st @ map (artifact_request opts) nodes"
    by (rule run_net [OF scan])
  have 3: "\<exists>s. title (snd r) = Str s
             \<and> projectId_of r = element (js_split CHR ''|'' s) 1
             \<and> jobName_of r = element (js_split CHR ''|'' s) 2
             \<and> artifact_request opts r =
                 \<lparr>http_method = ''GET'',
                  url = template (apiBase opts) @ ''/api/v4/projects/'' @ template (projectId_of r)
                          @ ''/jobs/artifacts/master/download?job='' @ template (jobName_of r),
                  headers = [(''PRIVATE-TOKEN'', gitlabApiToken opts)]\<rparr>
             \<and> (length (js_split CHR ''|'' s) < 3 \<longrightarrow>
                   jobName_of r = Undefined \<and> template (jobName_of r) = ''undefined'')"
    if "r \<in> set nodes" for r
  proof -
    from scan_get(2) [OF scan that] obtain s where s: "title (snd r) = Str s"
      unfolding pushed_def references_artifact_iff by blast
    have "length (js_split CHR ''|'' s) < 3 \<longrightarrow>
            jobName_of r = Undefined \<and> template (jobName_of r) = ''undefined''"
      using title_fields(3) [OF s] by simp
    with s title_fields(1,2) [OF s] artifact_request_explicit [of opts r] show ?thesis by blast
  qed
  from 1 2 3 show ?thesis by (simp only: marker_def simp_thms) blast
qed


theorem scanner_predicate_witness:
  "net (snd (transformer (answering 200 ''OK'') [] (gitlab ''success'') no_next
              (start (document [link ''see|gitlab-artifact|1095|build:docs'' 3,
                                link ''no reference'' 4,
                                link ''gitlab-artifact|onlyOneField'' 5])))) =
     [\<lparr>http_method = ''GET'',
       url = ''https://src.temando.io/api/v4/projects/gitlab-artifact/jobs/artifacts/master/download?job=1095'',
       headers = [(''PRIVATE-TOKEN'', Str ''success'')]\<rparr>,
      \<lparr>http_method = ''GET'',
       url = ''https://src.temando.io/api/v4/projects/onlyOneField/jobs/artifacts/master/download?job=undefined'',
       headers = [(''PRIVATE-TOKEN'', Str ''success'')]\<rparr>]"
proof -
  define l1 where "l1 = link ''see|gitlab-artifact|1095|build:docs'' 3"
  define l2 where "l2 = link ''no reference'' 4"
  define l3 where "l3 = link ''gitlab-artifact|onlyOneField'' 5"
  define st where "st = start (document [l1, l2, l3])"
  define w where "w = answering 200 ''OK''"
  define opts where "opts = gitlab ''success''"
  define nodes :: "ref list" where "nodes = [([0, 0], l1), ([0, 2], l3)]"
  have scan: "visit ''link'' visitor [] (tree st) [] = Inr nodes"
    unfolding st_def l1_def l2_def l3_def nodes_def by code_simp
  have rq: "net st @ map (artifact_request opts) nodes =
     [\<lparr>http_method = ''GET'',
       url = ''https://src.temando.io/api/v4/projects/gitlab-artifact/jobs/artifacts/master/download?job=1095'',
       headers = [(''PRIVATE-TOKEN'', Str ''success'')]\<rparr>,
      \<lparr>http_method = ''GET'',
       url = ''https://src.temando.io/api/v4/projects/onlyOneField/jobs/artifacts/master/download?job=undefined'',
       headers = [(''PRIVATE-TOKEN'', Str ''success'')]\<rparr>]"
    unfolding st_def l1_def l3_def nodes_def opts_def by code_simp
  from scanner_predicate_and_fields [OF scan, of w "[]" opts no_next]
  have "net (snd (transformer w [] opts no_next st)) = net st @ map (artifact_request opts) nodes"
    by (elim conjE)
  then show ?thesis unfolding rq unfolding st_def l1_def l2_def l3_def w_def opts_def .
qed

section \<open>A title with the marker and too few segments\<close>

text \<open>
  C1, as the spec states it, fails: the link titled \<open>gitlab-artifact|onlyOneField\<close> is
  collected. In a world that answers 200, a request goes out for project \<open>onlyOneField\<close>
  and job \<open>undefined\<close>, the report gains an entry, and the title is cleared.
\<close>

theorem malformed_reference_counterexample:
  "net (snd (transformer (answering 200 ''OK'') [] (gitlab ''success'') no_next
              (start (document [link ''gitlab-artifact|onlyOneField'' 3])))) =
     [\<lparr>http_method = ''GET'',
       url = ''https://src.temando.io/api/v4/projects/onlyOneField/jobs/artifacts/master/download?job=undefined'',
       headers = [(''PRIVATE-TOKEN'', Str ''success'')]\<rparr>]
   \<and> net (start (document [link ''gitlab-artifact|onlyOneField'' 3])) = []
   \<and> messages (vFile (snd (transformer (answering 200 ''OK'') [] (gitlab ''success'') no_next
              (start (document [link ''gitlab-artifact|onlyOneField'' 3]))))) =
     [\<lparr>kind = Info, reason = ''artifacts fetched from onlyOneField undefined'',
       location = Some (Position 3 1 3 60), origin = ''remark-gitlab-artifact''\<rparr>]
   \<and> messages (vFile (start (document [link ''gitlab-artifact|onlyOneField'' 3]))) = []
   \<and> map_option title (get [0, 0] (tree (snd (transformer (answering 200 ''OK'') [] (gitlab ''success'') no_next
              (start (document [link ''gitlab-artifact|onlyOneField'' 3])))))) = Some (Str [])
   \<and> map_option title (get [0, 0] (tree (start (document [link ''gitlab-artifact|onlyOneField'' 3])))) =
       Some (Str ''gitlab-artifact|onlyOneField'')"
  by (intro conjI; code_simp)

text \<open>
  C1, amended. A link whose title holds the marker but splits into fewer than three
  segments is collected like any other reference (when the scan does not throw): one
  request is issued per collected link, this one's with the job \<open>undefined\<close> in its URL;
  the report gains one entry per collected link, this link's task completing exactly once;
  and its title becomes the empty string when its fetch is answered with status 200 and
  the archive unzips without error, and stays as it was otherwise.
\<close>

theorem malformed_reference_is_fetched:
  assumes scan: "visit ''link'' visitor [] (tree st) [] = Inr nodes"
    and node: "get p (tree st) = Some n" "ntype n = ''link''" "title n = Str s"
    and marked: "sublist marker s"
    and short: "length (js_split CHR ''|'' s) < 3"
  shows "\<exists>i < length nodes. nodes ! i = (p, n)
       \<and> net (snd (transformer w sched opts next st)) = net st @ map (artifact_request opts) nodes
       \<and> url (artifact_request opts (p, n)) =
           template (apiBase opts) @ ''/api/v4/projects/'' @ template (projectId_of (p, n))
             @ ''/jobs/artifacts/master/download?job=undefined''
       \<and> messages (vFile (snd (transformer w sched opts next st))) =
           messages (vFile st) @
           map (\<lambda>j. diagnostic w opts st j (nodes ! j)) (completion_order sched (length nodes))
       \<and> count_list (completion_order sched (length nodes)) i = 1
       \<and> map_option title (get p (tree (snd (transformer w sched opts next st)))) =
           Some (if (\<exists>tx b. fetch w i (artifact_request opts (p, n)) = Response 200 tx b \<and>
                            unzip w i (getDestinationDir (vFile st)) b = None)
                 then Str [] else Str s)"
proof -
  have "(p, n) \<in> set (refs [] (tree st))" using node(1) by (simp add: refs_get(1))
  moreover have "pushed (p, n)"
    using node(2,3) marked marker_nonempty [OF marked]
    by (simp add: pushed_def references_artifact_iff)
  ultimately have "(p, n) \<in> set nodes" by (simp add: visit_scan(1) [OF scan])
  then obtain i where i: "i < length nodes" and ni: "nodes ! i = (p, n)"
    by (auto simp: in_set_conv_nth)
  have u: "url (artifact_request opts (p, n)) =
           template (apiBase opts) @ ''/api/v4/projects/'' @ template (projectId_of (p, n))
             @ ''/jobs/artifacts/master/download?job=undefined''"
    using title_fields(3) [of "(p, n)" s] node(3) short
    by (simp add: artifact_request_explicit)
  have t: "map_option title (get p (tree (snd (transformer w sched opts next st)))) =
           Some (if (\<exists>tx b. fetch w i (artifact_request opts (p, n)) = Response 200 tx b \<and>
                            unzip w i (getDestinationDir (vFile st)) b = None)
                 then Str [] else Str s)"
    using run_title [OF scan i, of w sched opts "next"]
    by (simp only: ni fst_conv snd_conv node(3) diagnostic_Info_iff)
  from i ni run_net [OF scan, of w sched opts "next"] u run_messages [OF scan, of w sched opts "next"]
    count_completion_order [OF i, of sched] t
  show ?thesis by blast
qed


theorem malformed_reference_witness:
  "url (artifact_request (gitlab ''success'') ([0, 0], link ''gitlab-artifact|onlyOneField'' 3)) =
     ''https://src.temando.io/api/v4/projects/onlyOneField/jobs/artifacts/master/download?job=undefined''
   \<and> net (snd (transformer (answering 200 ''OK'') [] (gitlab ''success'') no_next
              (start (document [link ''gitlab-artifact|onlyOneField'' 3])))) =
       [artifact_request (gitlab ''success'') ([0, 0], link ''gitlab-artifact|onlyOneField'' 3)]
   \<and> map_option title (get [0, 0] (tree (snd (transformer (answering 200 ''OK'') [] (gitlab ''success'') no_next
              (start (document [link ''gitlab-artifact|onlyOneField'' 3])))))) = Some (Str [])"
proof -
  define s where "s = ''gitlab-artifact|onlyOneField''"
  define n where "n = link s 3"
  define st where "st = start (document [n])"
  define w where "w = answering 200 ''OK''"
  define opts where "opts = gitlab ''success''"
  define nodes :: "ref list" where "nodes = [([0, 0], n)]"
  have scan: "visit ''link'' visitor [] (tree st) [] = Inr nodes"
    unfolding st_def n_def s_def nodes_def by code_simp
  have node: "get [0, 0] (tree st) = Some n" "ntype n = ''link''" "title n = Str s"
    unfolding st_def n_def by (simp_all add: start_def document_def link_def)
  have marked: "sublist marker s" unfolding s_def by code_simp
  have short: "length (js_split CHR ''|'' s) < 3" unfolding s_def by code_simp
  have old: "net st = []" by (simp add: st_def start_def)
  have pid: "template (apiBase opts) @ ''/api/v4/projects/'' @ template (projectId_of ([0, 0], n))
             @ ''/jobs/artifacts/master/download?job=undefined'' =
             ''https://src.temando.io/api/v4/projects/onlyOneField/jobs/artifacts/master/download?job=undefined''"
    unfolding opts_def n_def s_def by code_simp
  from malformed_reference_is_fetched [OF scan node marked short, of w "[]" opts no_next]
  obtain i where i: "i < length nodes"
    and nt: "net (snd (transformer w [] opts no_next st)) = net st @ map (artifact_request opts) nodes"
    and u: "url (artifact_request opts ([0, 0], n)) =
           template (apiBase opts) @ ''/api/v4/projects/'' @ template (projectId_of ([0, 0], n))
             @ ''/jobs/artifacts/master/download?job=undefined''"
    and t: "map_option title (get [0, 0] (tree (snd (transformer w [] opts no_next st)))) =
           Some (if (\<exists>tx b. fetch w i (artifact_request opts ([0, 0], n)) = Response 200 tx b \<and>
                            unzip w i (getDestinationDir (vFile st)) b = None)
                 then Str [] else Str s)"
    by blast
  have "\<exists>tx b. fetch w i (artifact_request opts ([0, 0], n)) = Response 200 tx b \<and>
                unzip w i (getDestinationDir (vFile st)) b = None"
    unfolding w_def by (simp add: answering_def)
  with t have t': "map_option title (get [0, 0] (tree (snd (transformer w [] opts no_next st)))) = Some (Str [])"
    by simp
  from nt have nt': "net (snd (transformer w [] opts no_next st)) = [artifact_request opts ([0, 0], n)]"
    by (simp add: old nodes_def)
  from u [unfolded pid] nt' t' show ?thesis
    unfolding st_def n_def s_def w_def opts_def by (intro conjI)
qed

end
